theory Spec2Isabelle
  imports Complex_Main "HOL-Library.AList"
begin

section \<open>Data model of the session orchestrator\<close>

text \<open>
  The development embeds \<^verbatim>\<open>src/automation/cursor_automation_enhanced.py\<close>:
  the session record, the configuration, the message-bus interface the detectors
  consume, the injection pipeline and the monitor.

  Bus item bodies are JSON values. Python's \<^verbatim>\<open>dict\<close> is an association list
  read with \<open>map_of\<close>.
\<close>

datatype json =
    JNull
  | JBool bool
  | JInt int
  | JFloat real
  | JStr string
  | JList "json list"
  | JDict "(string \<times> json) list"

text \<open>\<^verbatim>\<open>ChatSession\<close>. The field \<^verbatim>\<open>id\<close> is written \<open>id'\<close>; the status is a
  Python string and stays one.\<close>

record chat_session =
  id' :: string
  role :: string
  prompt_template :: string
  started_at :: real
  last_activity :: real
  message_count :: int
  last_offsets :: "string \<rightharpoonup> int"
  loop_detected :: bool
  status :: string
  error_count :: int
  last_error :: "string option"

text \<open>\<^verbatim>\<open>AutomationConfig\<close>.\<close>

record automation_config =
  max_iterations :: int
  loop_detection_threshold :: int
  inactivity_timeout :: int
  check_interval :: int
  cursor_workspace :: "string option"
  enable_gui_automation :: bool
  log_level :: string

text \<open>
  What \<^verbatim>\<open>mcp_bus.pull(channel, since=since, limit=5)\<close> hands back: either it raises
  (\<open>Inl\<close> of the message) or it returns a dict whose keys \<^verbatim>\<open>'items'\<close> and
  \<^verbatim>\<open>'next'\<close> may each be absent. Every item is a dict whose key \<^verbatim>\<open>'body'\<close> may be
  absent. The bus is an object with state of its own: a pull takes the bus state and
  returns the next one.
\<close>

datatype bus_item = BusItem (body: "json option")

record pull_response =
  items :: "bus_item list option"
  next_offset :: "int option"

type_synonym 'b pull = "'b \<Rightarrow> string \<Rightarrow> int \<Rightarrow> int \<Rightarrow> (string + pull_response) \<times> 'b"

text \<open>The result of calling an injection strategy: it returns a bool or raises.\<close>

datatype outcome = Returned bool | Raised string

text \<open>
  The operating system and the external tools, as the orchestrator sees them:
  \<^verbatim>\<open>os.name\<close>, the builtin \<^verbatim>\<open>str\<close> on values that are not strings, the result
  of \<^verbatim>\<open>_find_cursor_command\<close> and \<^verbatim>\<open>_launch_cursor_application\<close>, what the
  clipboard and file strategies do once past their guards, the text built by
  \<^verbatim>\<open>_create_loop_breaker_prompt\<close>, and whether the file system lets the
  orchestrator write the file at a given path (the \<^verbatim>\<open>try\<close> body around
  \<^verbatim>\<open>write_text\<close> runs to its end).
\<close>

record env =
  os_name :: string
  repr_json :: "json \<Rightarrow> string"
  find_cursor_command :: "string + string option"
  launch_cursor_application :: "string \<Rightarrow> chat_session \<Rightarrow> bool"
  clipboard_linux_posix :: "string \<Rightarrow> outcome"
  clipboard_windows_nt :: "string \<Rightarrow> bool"
  file_fallback_automation :: "string \<Rightarrow> bool"
  create_loop_breaker_prompt :: "chat_session \<Rightarrow> string"
  write_text_ok :: "string \<Rightarrow> bool"

text \<open>The summary dict written by \<^verbatim>\<open>_save_session_summary\<close>.\<close>

record session_summary =
  sum_session_id :: string
  sum_role :: string
  sum_status :: string
  sum_started_at :: real
  sum_ended_at :: real
  sum_runtime_seconds :: real
  sum_last_activity :: real
  sum_message_count :: int
  sum_loop_detected :: bool
  sum_error_count :: int
  sum_last_error :: "string option"
  sum_prompt_length :: nat

text \<open>
  What the orchestrator hands to its collaborators, in order: the log line
  \<^verbatim>\<open>Trying method: <name>\<close> of the pipeline, the manual-instruction file of a session
  (by session id) once written, a session summary once written, the error log line of
  a file that could not be written (by path), and the error log line of an unknown
  session id.
\<close>

datatype event =
    TryingMethod string
  | ManualInstruction string
  | Summary session_summary
  | WriteFailed string
  | SessionNotFound string

section \<open>Injection strategies and pipeline\<close>

definition inject_via_clipboard_linux :: "env \<Rightarrow> string \<Rightarrow> outcome" where
  "inject_via_clipboard_linux e prompt =
     (if os_name e \<noteq> ''posix'' then Returned False else clipboard_linux_posix e prompt)"

definition inject_via_clipboard_windows :: "env \<Rightarrow> string \<Rightarrow> outcome" where
  "inject_via_clipboard_windows e prompt =
     (if os_name e \<noteq> ''nt'' then Returned False else Returned (clipboard_windows_nt e prompt))"

definition inject_via_file_fallback :: "env \<Rightarrow> string \<Rightarrow> outcome" where
  "inject_via_file_fallback e prompt = Returned (file_fallback_automation e prompt)"

definition inject_via_direct_input :: "string \<Rightarrow> outcome" where
  "inject_via_direct_input prompt = Returned False"

text \<open>
  \<^verbatim>\<open>_create_manual_instruction_file\<close>: the file \<^verbatim>\<open>manual_setup_<id>.txt\<close> is written
  inside a \<^verbatim>\<open>try\<close>; when the write fails the \<^verbatim>\<open>except\<close> logs the error and no file
  exists.
\<close>

definition manual_instruction_path :: "chat_session \<Rightarrow> string" where
  "manual_instruction_path session = ''manual_setup_'' @ id' session @ ''.txt''"

definition create_manual_instruction_file ::
  "env \<Rightarrow> chat_session \<Rightarrow> event list \<Rightarrow> event list" where
  "create_manual_instruction_file e session tr =
     (if write_text_ok e (manual_instruction_path session)
      then tr @ [ManualInstruction (id' session)]
      else tr @ [WriteFailed (manual_instruction_path session)])"

text \<open>
  The \<^verbatim>\<open>for method_name, method_func in methods\<close> loop of
  \<^verbatim>\<open>_inject_prompt_with_fallbacks\<close>. The bool says whether the loop left through
  \<^verbatim>\<open>return\<close> (a strategy succeeded) or ran to its end.
\<close>

fun try_methods ::
  "env \<Rightarrow> (string \<times> (string \<Rightarrow> outcome)) list \<Rightarrow> chat_session \<Rightarrow> event list
     \<Rightarrow> bool \<times> event list" where
  "try_methods e [] session tr = (False, tr)"
| "try_methods e ((method_name, method_func) # methods) session tr =
     (case method_func (prompt_template session) of
        Returned True \<Rightarrow>
          (True,
           if method_name = ''file_fallback''
           then create_manual_instruction_file e session (tr @ [TryingMethod method_name])
           else tr @ [TryingMethod method_name])
      | Returned False \<Rightarrow> try_methods e methods session (tr @ [TryingMethod method_name])
      | Raised exn \<Rightarrow> try_methods e methods session (tr @ [TryingMethod method_name]))"

definition methods_of :: "env \<Rightarrow> (string \<times> (string \<Rightarrow> outcome)) list" where
  "methods_of e =
     [(''clipboard_linux'', inject_via_clipboard_linux e),
      (''clipboard_windows'', inject_via_clipboard_windows e),
      (''file_fallback'', inject_via_file_fallback e),
      (''direct_input'', inject_via_direct_input)]"

definition inject_prompt_with_fallbacks :: "env \<Rightarrow> chat_session \<Rightarrow> event list \<Rightarrow> event list" where
  "inject_prompt_with_fallbacks e session tr =
     (case try_methods e (methods_of e) session tr of
        (True, tr') \<Rightarrow> tr'
      | (False, tr') \<Rightarrow> create_manual_instruction_file e session tr')"

text \<open>
  \<^verbatim>\<open>_inject_prompt_with_fallbacks_simple\<close>: one strategy chosen by \<^verbatim>\<open>os.name\<close>, its
  result dropped; an exception of the strategy leaves the function (\<open>Inl\<close>).
\<close>

definition inject_prompt_with_fallbacks_simple :: "env \<Rightarrow> string \<Rightarrow> string + unit" where
  "inject_prompt_with_fallbacks_simple e prompt =
     (let r = (if os_name e = ''posix'' then inject_via_clipboard_linux e prompt
               else if os_name e = ''nt'' then inject_via_clipboard_windows e prompt
               else inject_via_file_fallback e prompt)
      in case r of Raised exn \<Rightarrow> Inl exn | Returned b \<Rightarrow> Inr ())"

section \<open>Detectors\<close>

text \<open>\<^verbatim>\<open>str(v)\<close>: a string is its own text; any other value is rendered by the builtin.\<close>

definition py_str :: "env \<Rightarrow> json \<Rightarrow> string" where
  "py_str e v = (case v of JStr s \<Rightarrow> s | _ \<Rightarrow> repr_json e v)"

text \<open>\<^verbatim>\<open>session.last_offsets.get(channel, 0)\<close>.\<close>

definition offset_of :: "chat_session \<Rightarrow> string \<Rightarrow> int" where
  "offset_of session channel = (case last_offsets session channel of None \<Rightarrow> 0 | Some n \<Rightarrow> n)"

text \<open>\<^verbatim>\<open>messages.get('items', [])\<close>.\<close>

definition items_of :: "pull_response \<Rightarrow> bus_item list" where
  "items_of messages = (case items messages of None \<Rightarrow> [] | Some xs \<Rightarrow> xs)"

text \<open>
  The lines both detectors share after the pull:
  \<^verbatim>\<open>
  session.message_count += len(items)
  if 'next' in messages:
      session.last_offsets[channel] = messages['next']
  elif items:
      session.last_offsets[channel] = since + len(items)
  \<close>
\<close>

definition update_counters_offsets ::
  "string \<Rightarrow> int \<Rightarrow> pull_response \<Rightarrow> chat_session \<Rightarrow> chat_session" where
  "update_counters_offsets channel since messages session =
     (let its = items_of messages;
          s1 = session\<lparr>message_count := message_count session + int (length its)\<rparr>
      in case next_offset messages of
           Some n \<Rightarrow> s1\<lparr>last_offsets := (last_offsets s1)(channel \<mapsto> n)\<rparr>
         | None \<Rightarrow>
             if its \<noteq> []
             then s1\<lparr>last_offsets := (last_offsets s1)(channel \<mapsto> since + int (length its))\<rparr>
             else s1)"

text \<open>\<^verbatim>\<open>str(item.get('body', ''))\<close> and
  \<^verbatim>\<open>[str(item.get('body', '')) for item in items[-3:]]\<close>.\<close>

definition body_str :: "env \<Rightarrow> bus_item \<Rightarrow> string" where
  "body_str e item = py_str e (case body item of None \<Rightarrow> JStr [] | Some b \<Rightarrow> b)"

definition recent_bodies :: "env \<Rightarrow> bus_item list \<Rightarrow> string list" where
  "recent_bodies e its = map (body_str e) (drop (length its - 3) its)"

text \<open>
  \<^verbatim>\<open>_detect_loop\<close>. A missing bus (\<^verbatim>\<open>self.mcp_bus\<close> is \<^verbatim>\<open>None\<close>) makes the
  pull raise inside the \<^verbatim>\<open>try\<close>, as a raising pull does: the \<^verbatim>\<open>except\<close> logs and
  the function returns \<^verbatim>\<open>False\<close>.
\<close>

definition detect_loop ::
  "'b pull \<Rightarrow> env \<Rightarrow> automation_config \<Rightarrow> 'b option \<Rightarrow> chat_session
     \<Rightarrow> bool \<times> chat_session \<times> 'b option" where
  "detect_loop pull e cfg mcp_bus session =
     (case mcp_bus of
        None \<Rightarrow> (False, session, None)
      | Some bus \<Rightarrow>
          (let channel = role session @ ''_messages'';
               since = offset_of session channel
           in case pull bus channel since 5 of
                (Inl exn, bus') \<Rightarrow> (False, session, Some bus')
              | (Inr messages, bus') \<Rightarrow>
                  (let its = items_of messages;
                       session' = update_counters_offsets channel since messages session
                   in if int (length its) \<ge> loop_detection_threshold cfg
                      then (let unique_messages = card (set (recent_bodies e its))
                            in (unique_messages \<le> 1, session', Some bus'))
                      else (False, session', Some bus'))))"

text \<open>
  The \<^verbatim>\<open>for item in items\<close> loop of \<^verbatim>\<open>_check_completion\<close>:
  \<^verbatim>\<open>isinstance(body, dict) and body.get('done') is True\<close> holds of a dict whose
  key \<^verbatim>\<open>'done'\<close> is the boolean \<^verbatim>\<open>True\<close>.
\<close>

definition body_done :: "json \<Rightarrow> bool" where
  "body_done b = (case b of JDict kvs \<Rightarrow> map_of kvs ''done'' = Some (JBool True) | _ \<Rightarrow> False)"

fun any_done :: "bus_item list \<Rightarrow> bool" where
  "any_done [] = False"
| "any_done (item # rest) =
     (if body_done (case body item of None \<Rightarrow> JDict [] | Some b \<Rightarrow> b) then True
      else any_done rest)"

definition check_completion ::
  "'b pull \<Rightarrow> 'b option \<Rightarrow> chat_session \<Rightarrow> bool \<times> chat_session \<times> 'b option" where
  "check_completion pull mcp_bus session =
     (case mcp_bus of
        None \<Rightarrow> (False, session, None)
      | Some bus \<Rightarrow>
          (let channel = role session @ ''_status'';
               since = offset_of session channel
           in case pull bus channel since 5 of
                (Inl exn, bus') \<Rightarrow> (False, session, Some bus')
              | (Inr messages, bus') \<Rightarrow>
                  (any_done (items_of messages),
                   update_counters_offsets channel since messages session,
                   Some bus')))"

section \<open>Handlers and the monitor\<close>

text \<open>
  \<^verbatim>\<open>_save_session_summary\<close>; \<open>now\<close> is the reading of \<^verbatim>\<open>time.time()\<close>. The file
  \<^verbatim>\<open>session_summary_<id>_<status>.json\<close> is written inside a \<^verbatim>\<open>try\<close>; when the
  write fails the \<^verbatim>\<open>except\<close> logs the error and no summary exists.
\<close>

definition summary_path :: "chat_session \<Rightarrow> string \<Rightarrow> string" where
  "summary_path session final_status =
     ''session_summary_'' @ id' session @ ''_'' @ final_status @ ''.json''"

definition summary_of :: "real \<Rightarrow> chat_session \<Rightarrow> string \<Rightarrow> session_summary" where
  "summary_of now session final_status = \<lparr>
        sum_session_id = id' session,
        sum_role = role session,
        sum_status = final_status,
        sum_started_at = started_at session,
        sum_ended_at = now,
        sum_runtime_seconds = now - started_at session,
        sum_last_activity = last_activity session,
        sum_message_count = message_count session,
        sum_loop_detected = loop_detected session,
        sum_error_count = error_count session,
        sum_last_error = last_error session,
        sum_prompt_length = length (prompt_template session)\<rparr>"

definition save_session_summary ::
  "env \<Rightarrow> real \<Rightarrow> chat_session \<Rightarrow> string \<Rightarrow> event list \<Rightarrow> event list" where
  "save_session_summary e now session final_status tr =
     (if write_text_ok e (summary_path session final_status)
      then tr @ [Summary (summary_of now session final_status)]
      else tr @ [WriteFailed (summary_path session final_status)])"

definition handle_session_timeout ::
  "env \<Rightarrow> real \<Rightarrow> chat_session \<Rightarrow> event list \<Rightarrow> event list" where
  "handle_session_timeout e now session tr = save_session_summary e now session ''timeout'' tr"

definition handle_session_completion ::
  "env \<Rightarrow> real \<Rightarrow> chat_session \<Rightarrow> event list \<Rightarrow> event list" where
  "handle_session_completion e now session tr = save_session_summary e now session ''completed'' tr"

text \<open>
  \<^verbatim>\<open>_handle_loop_detection\<close>: the loop breaker is injected through the simple path;
  the three session fields are written only when the injection did not raise.
\<close>

definition handle_loop_detection ::
  "env \<Rightarrow> real \<Rightarrow> chat_session \<Rightarrow> event list \<Rightarrow> chat_session \<times> event list" where
  "handle_loop_detection e now session tr =
     (let loop_breaker = create_loop_breaker_prompt e session
      in case inject_prompt_with_fallbacks_simple e loop_breaker of
           Inr u \<Rightarrow>
             (session\<lparr>last_activity := now,
                      error_count := error_count session + 1,
                      last_error := Some ''Loop detected and intervention applied''\<rparr>, tr)
         | Inl exn \<Rightarrow> (session, tr))"

text \<open>
  \<^verbatim>\<open>_monitor_single_session\<close>. \<open>current_time\<close> is the argument of the source; \<open>now\<close>
  is what \<^verbatim>\<open>time.time()\<close> reads inside the handlers.
\<close>

definition monitor_single_session ::
  "'b pull \<Rightarrow> env \<Rightarrow> automation_config \<Rightarrow> real \<Rightarrow> real
     \<Rightarrow> chat_session \<Rightarrow> 'b option \<Rightarrow> event list \<Rightarrow> chat_session \<times> 'b option \<times> event list" where
  "monitor_single_session pull e cfg current_time now session mcp_bus tr =
     (let inactive_time = current_time - last_activity session
      in if inactive_time > real_of_int (inactivity_timeout cfg)
         then (let s1 = session\<lparr>status := ''timeout''\<rparr>
               in (s1, mcp_bus, handle_session_timeout e now s1 tr))
         else
           (case (if mcp_bus \<noteq> None then detect_loop pull e cfg mcp_bus session
                  else (False, session, mcp_bus)) of
              (True, s1, bus1) \<Rightarrow>
                (let s2 = s1\<lparr>loop_detected := True, status := ''looped''\<rparr>;
                     (s3, tr3) = handle_loop_detection e now s2 tr
                 in (s3, bus1, tr3))
            | (False, s1, bus1) \<Rightarrow>
                (case check_completion pull bus1 s1 of
                   (True, s2, bus2) \<Rightarrow>
                     (let s3 = s2\<lparr>status := ''completed''\<rparr>
                      in (s3, bus2, handle_session_completion e now s3 tr))
                 | (False, s2, bus2) \<Rightarrow> (s2, bus2, tr))))"

text \<open>
  The orchestrator object: \<^verbatim>\<open>self.config\<close>, \<^verbatim>\<open>self.sessions\<close> (a dict, in
  insertion order), \<^verbatim>\<open>self.mcp_bus\<close>, \<^verbatim>\<open>self.running\<close>.
\<close>

record 'b automation =
  config :: automation_config
  sessions :: "(string \<times> chat_session) list"
  mcp_bus :: "'b option"
  running :: bool

text \<open>
  One pass of the \<^verbatim>\<open>for session_id, session in list(self.sessions.items())\<close> loop
  of \<^verbatim>\<open>monitor_sessions\<close>: only a session whose status is \<^verbatim>\<open>"running"\<close> is looked at.
\<close>

fun monitor_each ::
  "'b pull \<Rightarrow> env \<Rightarrow> automation_config \<Rightarrow> real \<Rightarrow> real
     \<Rightarrow> (string \<times> chat_session) list \<Rightarrow> 'b option \<Rightarrow> event list
     \<Rightarrow> (string \<times> chat_session) list \<times> 'b option \<times> event list" where
  "monitor_each pull e cfg current_time now [] bus tr = ([], bus, tr)"
| "monitor_each pull e cfg current_time now ((session_id, session) # rest) bus tr =
     (if status session = ''running''
      then (case monitor_single_session pull e cfg current_time now session bus tr of
              (session', bus', tr') \<Rightarrow>
                (case monitor_each pull e cfg current_time now rest bus' tr' of
                   (rest', bus'', tr'') \<Rightarrow> ((session_id, session') # rest', bus'', tr'')))
      else (case monitor_each pull e cfg current_time now rest bus tr of
              (rest', bus'', tr'') \<Rightarrow> ((session_id, session) # rest', bus'', tr'')))"

text \<open>One cycle of the \<^verbatim>\<open>while self.running\<close> loop of \<^verbatim>\<open>monitor_sessions\<close>.\<close>

definition monitor_cycle ::
  "'b pull \<Rightarrow> env \<Rightarrow> real \<Rightarrow> real \<Rightarrow> 'b automation \<times> event list \<Rightarrow> 'b automation \<times> event list" where
  "monitor_cycle pull e current_time now st =
     (case st of (a, tr) \<Rightarrow>
        (case monitor_each pull e (config a) current_time now (sessions a) (mcp_bus a) tr of
           (sessions', bus', tr') \<Rightarrow> (a\<lparr>sessions := sessions', mcp_bus := bus'\<rparr>, tr')))"

text \<open>\<^verbatim>\<open>stop_monitoring\<close>.\<close>

fun interrupt_each ::
  "env \<Rightarrow> real \<Rightarrow> (string \<times> chat_session) list \<Rightarrow> event list
     \<Rightarrow> (string \<times> chat_session) list \<times> event list" where
  "interrupt_each e now [] tr = ([], tr)"
| "interrupt_each e now ((session_id, session) # rest) tr =
     (if status session = ''running''
      then (let s1 = session\<lparr>status := ''interrupted''\<rparr>
            in case interrupt_each e now rest (save_session_summary e now s1 ''interrupted'' tr) of
                 (rest', tr') \<Rightarrow> ((session_id, s1) # rest', tr'))
      else (case interrupt_each e now rest tr of
              (rest', tr') \<Rightarrow> ((session_id, session) # rest', tr')))"

definition stop_monitoring ::
  "env \<Rightarrow> real \<Rightarrow> 'b automation \<times> event list \<Rightarrow> 'b automation \<times> event list" where
  "stop_monitoring e now st =
     (case st of (a, tr) \<Rightarrow>
        (case interrupt_each e now (sessions a) tr of
           (sessions', tr') \<Rightarrow> (a\<lparr>running := False, sessions := sessions'\<rparr>, tr')))"

text \<open>
  \<^verbatim>\<open>launch_cursor_with_prompt\<close>. An exception inside its \<^verbatim>\<open>try\<close> (here: of the
  search for the Cursor command) is counted on the session and answered with
  \<^verbatim>\<open>False\<close>.
\<close>

definition launch_cursor_with_prompt ::
  "env \<Rightarrow> real \<Rightarrow> string \<Rightarrow> 'b automation \<times> event list \<Rightarrow> bool \<times> 'b automation \<times> event list" where
  "launch_cursor_with_prompt e now session_id st =
     (case st of (a, tr) \<Rightarrow>
        (case map_of (sessions a) session_id of
           None \<Rightarrow> (False, a, tr @ [SessionNotFound session_id])
         | Some session \<Rightarrow>
             (case find_cursor_command e of
                Inl exn \<Rightarrow>
                  (False,
                   a\<lparr>sessions := AList.update session_id
                        (session\<lparr>error_count := error_count session + 1, last_error := Some exn\<rparr>)
                        (sessions a)\<rparr>,
                   tr)
              | Inr None \<Rightarrow> (False, a, tr)
              | Inr (Some cursor_cmd) \<Rightarrow>
                  if cursor_cmd = [] then (False, a, tr)
                  else if launch_cursor_application e cursor_cmd session
                  then (True,
                        a\<lparr>sessions := AList.update session_id
                             (session\<lparr>last_activity := now\<rparr>) (sessions a)\<rparr>,
                        inject_prompt_with_fallbacks e session tr)
                  else (False, a, tr))))"

text \<open>
  The operations a caller or the monitor thread performs on the orchestrator, each with
  the environment and clock readings it meets, and a run of them in sequence.
\<close>

datatype operation =
    MonitorCycle env real real
  | StopMonitoring env real
  | LaunchCursor env real string

fun apply_operation ::
  "'b pull \<Rightarrow> operation \<Rightarrow> 'b automation \<times> event list \<Rightarrow> 'b automation \<times> event list" where
  "apply_operation pull (MonitorCycle e current_time now) st = monitor_cycle pull e current_time now st"
| "apply_operation pull (StopMonitoring e now) st = stop_monitoring e now st"
| "apply_operation pull (LaunchCursor e now session_id) st =
     snd (launch_cursor_with_prompt e now session_id st)"

fun run_operations ::
  "'b pull \<Rightarrow> operation list \<Rightarrow> 'b automation \<times> event list \<Rightarrow> 'b automation \<times> event list" where
  "run_operations pull [] st = st"
| "run_operations pull (op # ops) st = run_operations pull ops (apply_operation pull op st)"

section \<open>Assumptions on the bus, and a relation on session tables\<close>

text \<open>
  Two things a bus may or may not do. \<open>next_not_behind\<close>: a \<^verbatim>\<open>'next'\<close> offset, when the
  bus supplies one, is not smaller than the \<^verbatim>\<open>since\<close> it was asked with.
  \<open>honours_limit\<close>: a pull asked with \<^verbatim>\<open>limit=5\<close> returns at most five items.
\<close>

definition next_not_behind :: "'b pull \<Rightarrow> bool" where
  "next_not_behind pull \<longleftrightarrow>
     (\<forall>b channel since limit messages b' n.
        pull b channel since limit = (Inr messages, b') \<longrightarrow> next_offset messages = Some n \<longrightarrow> since \<le> n)"

definition honours_limit :: "'b pull \<Rightarrow> bool" where
  "honours_limit pull \<longleftrightarrow>
     (\<forall>b channel since messages b'.
        pull b channel since 5 = (Inr messages, b') \<longrightarrow> length (items_of messages) \<le> 5)"

text \<open>
  Two session tables are related by \<open>R\<close> when they hold the same keys in the same order
  and \<open>R\<close> relates the sessions position by position.
\<close>

definition sessions_rel ::
  "(chat_session \<Rightarrow> chat_session \<Rightarrow> bool)
     \<Rightarrow> (string \<times> chat_session) list \<Rightarrow> (string \<times> chat_session) list \<Rightarrow> bool" where
  "sessions_rel R ss ss' = list_all2 (\<lambda>x y. fst y = fst x \<and> R (snd x) (snd y)) ss ss'"

section \<open>Concrete sessions, buses and environments\<close>

text \<open>\<^verbatim>\<open>AutomationConfig()\<close> with its defaults, and the same with a threshold of 6.\<close>

definition config0 :: automation_config where
  "config0 = \<lparr>max_iterations = 30, loop_detection_threshold = 3, inactivity_timeout = 300,
     check_interval = 10, cursor_workspace = None, enable_gui_automation = True,
     log_level = ''INFO''\<rparr>"

definition config6 :: automation_config where
  "config6 = config0\<lparr>loop_detection_threshold := 6\<rparr>"

text \<open>A fresh session as \<^verbatim>\<open>create_chat_session\<close> builds it, the same session having
  read five messages, and a session that has completed.\<close>

definition session0 :: chat_session where
  "session0 = \<lparr>id' = ''architect_1a2b3c4d_1700000000'', role = ''architect'',
     prompt_template = ''You are the architect.'', started_at = 0, last_activity = 0,
     message_count = 0, last_offsets = Map.empty, loop_detected = False,
     status = ''running'', error_count = 0, last_error = None\<rparr>"

definition session5 :: chat_session where
  "session5 = session0\<lparr>last_offsets := [''architect_messages'' \<mapsto> 5]\<rparr>"

definition session_done :: chat_session where
  "session_done = session0\<lparr>id' := ''reviewer_9f8e7d6c_1700000001'', role := ''reviewer'',
     status := ''completed''\<rparr>"

text \<open>
  A POSIX machine whose clipboard strategy succeeds and where no Cursor command is
  found; the same machine with a clipboard tool that raises and a working file
  fallback; a Windows machine.
\<close>

definition env_posix :: env where
  "env_posix = \<lparr>os_name = ''posix'', repr_json = (\<lambda>v. ''<value>''),
     find_cursor_command = Inr None, launch_cursor_application = (\<lambda>cmd s. False),
     clipboard_linux_posix = (\<lambda>p. Returned True), clipboard_windows_nt = (\<lambda>p. False),
     file_fallback_automation = (\<lambda>p. False),
     create_loop_breaker_prompt = (\<lambda>s. ''LOOP DETECTION ALERT''),
     write_text_ok = (\<lambda>path. True)\<rparr>"

definition env_posix_raising :: env where
  "env_posix_raising =
     env_posix\<lparr>clipboard_linux_posix := (\<lambda>p. Raised ''xclip: display not found''),
       file_fallback_automation := (\<lambda>p. True)\<rparr>"

definition env_nt :: env where
  "env_nt = \<lparr>os_name = ''nt'', repr_json = (\<lambda>v. ''<value>''),
     find_cursor_command = Inr None, launch_cursor_application = (\<lambda>cmd s. False),
     clipboard_linux_posix = (\<lambda>p. Raised ''unreachable''), clipboard_windows_nt = (\<lambda>p. True),
     file_fallback_automation = (\<lambda>p. True),
     create_loop_breaker_prompt = (\<lambda>s. ''LOOP DETECTION ALERT''),
     write_text_ok = (\<lambda>path. True)\<rparr>"

text \<open>
  A session whose role holds a path separator, which \<^verbatim>\<open>create_chat_session\<close> accepts
  and copies into the id, and a POSIX machine where every strategy fails and a file
  whose name holds a separator cannot be written (the directory is not there).
\<close>

definition session_sep :: chat_session where
  "session_sep = session0\<lparr>id' := ''ops/architect_1a2b3c4d_1700000000'', role := ''ops/architect''\<rparr>"

definition env_unwritable :: env where
  "env_unwritable =
     env_posix\<lparr>clipboard_linux_posix := (\<lambda>p. Returned False),
       write_text_ok := (\<lambda>path. CHR ''/'' \<notin> set path)\<rparr>"

text \<open>
  Buses. \<open>pull_stuck\<close>: the architect's message channel holds the same body three
  times and every other channel a \<^verbatim>\<open>{"done": true}\<close>. \<open>pull_distinct\<close>: three
  different bodies. \<open>pull_not_done\<close>: bodies that do not complete a session.
  \<open>pull_down\<close>: every pull raises. \<open>pull_messages_down\<close>: the pull of the
  architect's message channel raises and the other channels hold nothing new.
  \<open>pull_status_down\<close>: the pull of the architect's status channel raises and the other
  channels hold three different bodies. \<open>pull_rewind\<close>: the bus answers with
  \<^verbatim>\<open>'next': 0\<close> whatever it was asked.
\<close>

definition pull_stuck :: "unit pull" where
  "pull_stuck b channel since limit =
     (if channel = ''architect_messages''
      then (Inr \<lparr>items = Some [BusItem (Some (JStr ''retrying'')), BusItem (Some (JStr ''retrying'')),
                                BusItem (Some (JStr ''retrying''))],
                 next_offset = None\<rparr>, b)
      else (Inr \<lparr>items = Some [BusItem (Some (JDict [(''done'', JBool True)]))],
                 next_offset = Some (since + 1)\<rparr>, b))"

definition pull_distinct :: "unit pull" where
  "pull_distinct b channel since limit =
     (Inr \<lparr>items = Some [BusItem (Some (JStr ''step 1'')), BusItem (Some (JStr ''step 2'')),
                          BusItem (Some (JStr ''step 3''))],
           next_offset = Some (since + 3)\<rparr>, b)"

definition pull_not_done :: "unit pull" where
  "pull_not_done b channel since limit =
     (Inr \<lparr>items = Some [BusItem (Some (JDict [(''done'', JBool False)])),
                          BusItem (Some (JDict [(''progress'', JInt 3)])),
                          BusItem (Some (JStr ''done'')),
                          BusItem None],
           next_offset = None\<rparr>, b)"

definition pull_down :: "unit pull" where
  "pull_down b channel since limit = (Inl ''bus unavailable'', b)"

definition pull_messages_down :: "unit pull" where
  "pull_messages_down b channel since limit =
     (if channel = ''architect_messages'' then (Inl ''bus unavailable'', b)
      else (Inr \<lparr>items = Some [], next_offset = None\<rparr>, b))"

definition pull_status_down :: "unit pull" where
  "pull_status_down b channel since limit =
     (if channel = ''architect_status'' then (Inl ''bus unavailable'', b)
      else pull_distinct b channel since limit)"

definition pull_rewind :: "unit pull" where
  "pull_rewind b channel since limit = (Inr \<lparr>items = Some [], next_offset = Some 0\<rparr>, b)"

text \<open>Orchestrators: one running session; the same with threshold 6; a completed and a
  running session.\<close>

definition automation0 :: "unit automation" where
  "automation0 = \<lparr>config = config0, sessions = [(id' session0, session0)],
     mcp_bus = Some (), running = True\<rparr>"

definition automation6 :: "unit automation" where
  "automation6 = automation0\<lparr>config := config6\<rparr>"

definition automation1 :: "unit automation" where
  "automation1 = \<lparr>config = config0,
     sessions = [(id' session_done, session_done), (id' session0, session0)],
     mcp_bus = Some (), running = True\<rparr>"

section \<open>The injection pipeline\<close>

text \<open>
  The loop over the methods, in closed form: with \<open>k\<close> the number of leading methods
  that do not return \<^verbatim>\<open>True\<close> (they return \<^verbatim>\<open>False\<close> or raise), the loop tries the
  first \<open>k + 1\<close> methods and nothing else.
\<close>

lemma try_methods_trace:
  "try_methods e ms s tr =
     (let k = length (takeWhile (\<lambda>(n, f). f (prompt_template s) \<noteq> Returned True) ms)
      in if k < length ms
         then (True, tr @ map (TryingMethod \<circ> fst) (take (Suc k) ms)
                       @ (if fst (ms ! k) = ''file_fallback''
                          then create_manual_instruction_file e s [] else []))
         else (False, tr @ map (TryingMethod \<circ> fst) ms))"
proof (induction ms arbitrary: tr)
  case Nil
  then show ?case by simp
next
  case (Cons m ms)
  obtain n f where m: "m = (n, f)" by (cases m)
  show ?case
  proof (cases "f (prompt_template s)")
    case (Returned b)
    then show ?thesis
      using Cons.IH [of "tr @ [TryingMethod n]"] m
      by (cases b) (simp_all add: create_manual_instruction_file_def Let_def)
  next
    case (Raised x)
    then show ?thesis
      using Cons.IH [of "tr @ [TryingMethod n]"] m
      by (simp add: Let_def)
  qed
qed

text \<open>
  When every strategy fails the pipeline calls the writer of the manual-instruction
  file, but the writer swallows a failed write. For a session whose role holds a path
  separator the file name names a directory that is not there: all four strategies are
  tried, the write fails and is logged, and no manual-instruction file exists.
\<close>

theorem manual_instruction_write_fails_counterexample:
  "inject_prompt_with_fallbacks env_unwritable session_sep [] =
     [TryingMethod ''clipboard_linux'', TryingMethod ''clipboard_windows'',
      TryingMethod ''file_fallback'', TryingMethod ''direct_input'',
      WriteFailed ''manual_setup_ops/architect_1a2b3c4d_1700000000.txt'']"
  by (simp add: inject_prompt_with_fallbacks_def methods_of_def env_unwritable_def env_posix_def
      session_sep_def session0_def inject_via_clipboard_linux_def inject_via_clipboard_windows_def
      inject_via_file_fallback_def inject_via_direct_input_def create_manual_instruction_file_def
      manual_instruction_path_def)

text \<open>
  Claim C8, amended. The pipeline calls its strategies in the order clipboard_linux,
  clipboard_windows, file_fallback, direct_input. With \<open>k\<close> the number of leading
  strategies that fail (return \<^verbatim>\<open>False\<close> or raise), exactly the first \<open>k + 1\<close> are
  tried, so nothing after the first success is called and an exception counts as a
  failure. The writer of the manual-instruction file is called when all four fail
  (\<open>k = 4\<close>) and when the file fallback is the strategy that succeeds (\<open>k = 2\<close>), and
  in no other case; the file is emitted when its write succeeds, and a failed write is
  caught and logged and leaves no file.
\<close>

theorem pipeline_order:
  "inject_prompt_with_fallbacks e s tr =
     (let outs = map (\<lambda>(n, f). f (prompt_template s)) (methods_of e);
          k = length (takeWhile (\<lambda>out. out \<noteq> Returned True) outs)
      in tr @ map TryingMethod
                (take (Suc k) [''clipboard_linux'', ''clipboard_windows'', ''file_fallback'', ''direct_input''])
            @ (if k = 2 \<or> 4 \<le> k
               then [if write_text_ok e (''manual_setup_'' @ id' s @ ''.txt'')
                     then ManualInstruction (id' s)
                     else WriteFailed (''manual_setup_'' @ id' s @ ''.txt'')]
               else []))"
  unfolding inject_prompt_with_fallbacks_def try_methods_trace
  by (simp add: methods_of_def Let_def create_manual_instruction_file_def manual_instruction_path_def
      inject_via_direct_input_def)

text \<open>
  On Windows the first strategy fails and the second succeeds: two strategies are tried
  and no file is written. With a clipboard tool that raises, the pipeline goes on to the
  file fallback, which succeeds and writes the file. When everything fails, all four are
  tried and the file is written, unless the write fails.
\<close>

theorem pipeline_order_witness:
  "inject_prompt_with_fallbacks env_nt session0 [] =
     [TryingMethod ''clipboard_linux'', TryingMethod ''clipboard_windows'']
   \<and> inject_prompt_with_fallbacks env_posix_raising session0 [] =
     [TryingMethod ''clipboard_linux'', TryingMethod ''clipboard_windows'',
      TryingMethod ''file_fallback'', ManualInstruction ''architect_1a2b3c4d_1700000000'']
   \<and> inject_prompt_with_fallbacks (env_posix\<lparr>clipboard_linux_posix := (\<lambda>p. Returned False)\<rparr>) session0 [] =
     [TryingMethod ''clipboard_linux'', TryingMethod ''clipboard_windows'',
      TryingMethod ''file_fallback'', TryingMethod ''direct_input'',
      ManualInstruction ''architect_1a2b3c4d_1700000000'']
   \<and> inject_prompt_with_fallbacks env_unwritable session0 [] =
     [TryingMethod ''clipboard_linux'', TryingMethod ''clipboard_windows'',
      TryingMethod ''file_fallback'', TryingMethod ''direct_input'',
      ManualInstruction ''architect_1a2b3c4d_1700000000'']
   \<and> ManualInstruction ''ops/architect_1a2b3c4d_1700000000''
         \<notin> set (inject_prompt_with_fallbacks env_unwritable session_sep [])"
  by (simp add: pipeline_order methods_of_def env_nt_def env_posix_def env_posix_raising_def
      env_unwritable_def session0_def session_sep_def
      inject_via_clipboard_linux_def inject_via_clipboard_windows_def inject_via_file_fallback_def
      inject_via_direct_input_def Let_def)

section \<open>The loop detector\<close>





section \<open>The completion detector\<close>

lemma any_done_iff:
  "any_done its \<longleftrightarrow>
     (\<exists>item\<in>set its. \<exists>kvs. body item = Some (JDict kvs) \<and> map_of kvs ''done'' = Some (JBool True))"
  by (induction its) (auto simp: body_done_def split: option.splits json.splits)

text \<open>
  Claim C6. The completion detector returns true if and only if the pull on the
  session's status channel returned and one of the pulled items has a body that is a
  dict whose field \<^verbatim>\<open>done\<close> is the boolean true. A body that is not a dict, has no
  \<^verbatim>\<open>done\<close>, or has \<^verbatim>\<open>done\<close> false does not complete the session and raises nothing.
\<close>

theorem check_completion_iff:
  "fst (check_completion pull mbus s) \<longleftrightarrow>
     (\<exists>bus messages bus' item kvs.
        mbus = Some bus
        \<and> pull bus (role s @ ''_status'') (offset_of s (role s @ ''_status'')) 5 = (Inr messages, bus')
        \<and> item \<in> set (items_of messages)
        \<and> body item = Some (JDict kvs)
        \<and> map_of kvs ''done'' = Some (JBool True))"
  by (auto simp: check_completion_def Let_def any_done_iff split: option.splits prod.splits sum.splits)

text \<open>
  \<^verbatim>\<open>{"done": true}\<close> completes; \<^verbatim>\<open>{"done": false}\<close>, \<^verbatim>\<open>{"progress": 3}\<close>, the string
  \<^verbatim>\<open>"done"\<close> and an item without body do not.
\<close>

theorem check_completion_iff_witness:
  "fst (check_completion pull_stuck (Some ()) session0) = True
   \<and> fst (check_completion pull_not_done (Some ()) session0) = False"
  unfolding check_completion_iff
  by (auto simp: pull_stuck_def pull_not_done_def session0_def offset_of_def items_of_def)

section \<open>What one pass over a session does\<close>

lemma update_counters_offsets_status [simp]:
  "status (update_counters_offsets channel since messages s) = status s"
  by (simp add: update_counters_offsets_def Let_def split: option.splits)

lemma update_counters_offsets_last_offsets:
  "last_offsets (update_counters_offsets channel since messages s) =
     (case next_offset messages of
        Some n \<Rightarrow> (last_offsets s)(channel \<mapsto> n)
      | None \<Rightarrow> if items_of messages \<noteq> []
                then (last_offsets s)(channel \<mapsto> since + int (length (items_of messages)))
                else last_offsets s)"
  by (simp add: update_counters_offsets_def Let_def split: option.splits)

lemma detect_loop_session:
  "fst (snd (detect_loop pull e cfg mbus s)) = s \<or>
   (\<exists>bus messages bus'. mbus = Some bus
      \<and> pull bus (role s @ ''_messages'') (offset_of s (role s @ ''_messages'')) 5 = (Inr messages, bus')
      \<and> fst (snd (detect_loop pull e cfg mbus s)) =
          update_counters_offsets (role s @ ''_messages'') (offset_of s (role s @ ''_messages'')) messages s)"
  by (auto simp: detect_loop_def Let_def split: option.splits prod.splits sum.splits)

lemma check_completion_session:
  "fst (snd (check_completion pull mbus s)) = s \<or>
   (\<exists>bus messages bus'. mbus = Some bus
      \<and> pull bus (role s @ ''_status'') (offset_of s (role s @ ''_status'')) 5 = (Inr messages, bus')
      \<and> fst (snd (check_completion pull mbus s)) =
          update_counters_offsets (role s @ ''_status'') (offset_of s (role s @ ''_status'')) messages s)"
  by (auto simp: check_completion_def Let_def split: option.splits prod.splits sum.splits)

lemma detect_loop_Inr:
  assumes "pull bus (role s @ ''_messages'') (offset_of s (role s @ ''_messages'')) 5 = (Inr messages, bus')"
  shows "fst (snd (detect_loop pull e cfg (Some bus) s)) =
           update_counters_offsets (role s @ ''_messages'') (offset_of s (role s @ ''_messages'')) messages s"
  using assms by (simp add: detect_loop_def Let_def)

lemma check_completion_Inr:
  assumes "pull bus (role s @ ''_status'') (offset_of s (role s @ ''_status'')) 5 = (Inr messages, bus')"
  shows "fst (snd (check_completion pull (Some bus) s)) =
           update_counters_offsets (role s @ ''_status'') (offset_of s (role s @ ''_status'')) messages s"
  using assms by (simp add: check_completion_def Let_def)

lemma detect_loop_status [simp]: "status (fst (snd (detect_loop pull e cfg mbus s))) = status s"
  using detect_loop_session [of pull e cfg mbus s] by auto

lemma check_completion_status [simp]: "status (fst (snd (check_completion pull mbus s))) = status s"
  using check_completion_session [of pull mbus s] by auto

lemma handle_loop_detection_status [simp]:
  "status (fst (handle_loop_detection e now s tr)) = status s"
  by (simp add: handle_loop_detection_def Let_def split: sum.splits)

lemma handle_loop_detection_offsets [simp]:
  "last_offsets (fst (handle_loop_detection e now s tr)) = last_offsets s"
  by (simp add: handle_loop_detection_def Let_def split: sum.splits)

text \<open>
  The four ways \<^verbatim>\<open>_monitor_single_session\<close> can go, each with what it returns.
\<close>

lemma monitor_single_session_cases:
  obtains
    (timeout) "current_time - last_activity s > real_of_int (inactivity_timeout cfg)"
      "monitor_single_session pull e cfg current_time now s mbus tr =
         (s\<lparr>status := ''timeout''\<rparr>, mbus,
          save_session_summary e now (s\<lparr>status := ''timeout''\<rparr>) ''timeout'' tr)"
  | (looped) s1 b1 where
      "\<not> current_time - last_activity s > real_of_int (inactivity_timeout cfg)"
      "mbus \<noteq> None"
      "detect_loop pull e cfg mbus s = (True, s1, b1)"
      "monitor_single_session pull e cfg current_time now s mbus tr =
         (fst (handle_loop_detection e now (s1\<lparr>loop_detected := True, status := ''looped''\<rparr>) tr), b1,
          snd (handle_loop_detection e now (s1\<lparr>loop_detected := True, status := ''looped''\<rparr>) tr))"
  | (completed) l s1 b1 s2 b2 where
      "\<not> current_time - last_activity s > real_of_int (inactivity_timeout cfg)"
      "detect_loop pull e cfg mbus s = (l, s1, b1)"
      "\<not> (mbus \<noteq> None \<and> l)"
      "check_completion pull b1 s1 = (True, s2, b2)"
      "monitor_single_session pull e cfg current_time now s mbus tr =
         (s2\<lparr>status := ''completed''\<rparr>, b2,
          save_session_summary e now (s2\<lparr>status := ''completed''\<rparr>) ''completed'' tr)"
  | (running) l s1 b1 s2 b2 where
      "\<not> current_time - last_activity s > real_of_int (inactivity_timeout cfg)"
      "detect_loop pull e cfg mbus s = (l, s1, b1)"
      "\<not> (mbus \<noteq> None \<and> l)"
      "check_completion pull b1 s1 = (False, s2, b2)"
      "monitor_single_session pull e cfg current_time now s mbus tr = (s2, b2, tr)"
proof (cases "current_time - last_activity s > real_of_int (inactivity_timeout cfg)")
  case True
  then show ?thesis
    using timeout by (simp add: monitor_single_session_def Let_def handle_session_timeout_def)
next
  case nt: False
  obtain l s1 b1 where dl: "detect_loop pull e cfg mbus s = (l, s1, b1)"
    by (cases "detect_loop pull e cfg mbus s") auto
  have none: "mbus = None \<Longrightarrow> l = False \<and> s1 = s \<and> b1 = mbus"
    using dl by (simp add: detect_loop_def)
  show ?thesis
  proof (cases "mbus \<noteq> None \<and> l")
    case True
    then show ?thesis
      using looped [of s1 b1] nt dl
      by (simp add: monitor_single_session_def Let_def case_prod_beta)
  next
    case nl: False
    obtain d s2 b2 where cc: "check_completion pull b1 s1 = (d, s2, b2)"
      by (cases "check_completion pull b1 s1") auto
    have m: "monitor_single_session pull e cfg current_time now s mbus tr =
               (if d then (s2\<lparr>status := ''completed''\<rparr>, b2,
                           save_session_summary e now (s2\<lparr>status := ''completed''\<rparr>) ''completed'' tr)
                else (s2, b2, tr))"
      using nt dl nl cc none
      by (cases "mbus = None"; cases l)
        (simp_all add: monitor_single_session_def Let_def handle_session_completion_def)
    show ?thesis
    proof (cases d)
      case True
      then show ?thesis using completed [of l s1 b1 s2 b2] nt dl nl cc m by simp
    next
      case False
      then show ?thesis using running [of l s1 b1 s2 b2] nt dl nl cc m by simp
    qed
  qed
qed

lemma monitor_single_session_status:
  "status (fst (monitor_single_session pull e cfg current_time now s mbus tr)) =
     (if current_time - last_activity s > real_of_int (inactivity_timeout cfg) then ''timeout''
      else if mbus \<noteq> None \<and> fst (detect_loop pull e cfg mbus s) then ''looped''
      else if fst (check_completion pull (snd (snd (detect_loop pull e cfg mbus s)))
                     (fst (snd (detect_loop pull e cfg mbus s))))
      then ''completed''
      else status s)"
proof (cases rule: monitor_single_session_cases [where current_time=current_time and s=s and cfg=cfg and pull=pull and e=e and now=now and mbus=mbus and tr=tr])
  case timeout
  then show ?thesis by simp
next
  case (looped s1 b1)
  then show ?thesis by simp
next
  case (completed l s1 b1 s2 b2)
  then show ?thesis by auto
next
  case (running l s1 b1 s2 b2)
  have "status s1 = status s" using detect_loop_status [of pull e cfg mbus s] running(2) by simp
  moreover have "status s2 = status s1" using check_completion_status [of pull b1 s1] running(4) by simp
  ultimately show ?thesis using running by auto
qed

section \<open>Bus errors\<close>

lemma update_counters_offsets_errors [simp]:
  "error_count (update_counters_offsets channel since messages s) = error_count s"
  "last_error (update_counters_offsets channel since messages s) = last_error s"
  by (simp_all add: update_counters_offsets_def Let_def split: option.splits)

lemma detect_loop_errors [simp]:
  "error_count (fst (snd (detect_loop pull e cfg mbus s))) = error_count s"
  "last_error (fst (snd (detect_loop pull e cfg mbus s))) = last_error s"
  using detect_loop_session [of pull e cfg mbus s] by auto

lemma check_completion_errors [simp]:
  "error_count (fst (snd (check_completion pull mbus s))) = error_count s"
  "last_error (fst (snd (check_completion pull mbus s))) = last_error s"
  using check_completion_session [of pull mbus s] by auto

text \<open>
  A pass whose loop detector says no goes on with the completion detector on the
  session and bus the loop detector left.
\<close>

lemma monitor_single_session_no_loop:
  assumes "\<not> current_time - last_activity s > real_of_int (inactivity_timeout cfg)"
    and "detect_loop pull e cfg (Some bus) s = (False, s1, b1)"
  shows "monitor_single_session pull e cfg current_time now s (Some bus) tr =
           (if fst (check_completion pull b1 s1)
            then ((fst (snd (check_completion pull b1 s1)))\<lparr>status := ''completed''\<rparr>,
                  snd (snd (check_completion pull b1 s1)),
                  save_session_summary e now
                    ((fst (snd (check_completion pull b1 s1)))\<lparr>status := ''completed''\<rparr>) ''completed'' tr)
            else (fst (snd (check_completion pull b1 s1)), snd (snd (check_completion pull b1 s1)), tr))"
  using assms
  by (cases "check_completion pull b1 s1")
    (simp add: monitor_single_session_def Let_def handle_session_completion_def)

text \<open>
  Claim C7. A pull of the loop detector that raises makes the detector return false and
  leave the session as it was, whatever the status channel does; the pass then goes on
  to the completion check, so the status is \<^verbatim>\<open>completed\<close> if that check is positive
  and otherwise what it was, and the error counter and last error are untouched. A pull
  of the completion detector that raises makes that detector return false and leave the
  session as it was, whatever the message channel does; in a pass where the loop
  detector said no, the session comes back as the loop detector left it, with its
  status, error counter and last error as before. When both pulls raise the pass
  returns the session unchanged and emits nothing. In each case a session that was
  running and has not timed out is not given a failure status.
\<close>

theorem bus_error_fail_open:
  "(pull bus (role s @ ''_messages'') (offset_of s (role s @ ''_messages'')) 5 = (Inl exnL, busL) \<longrightarrow>
      detect_loop pull e cfg (Some bus) s = (False, s, Some busL)
      \<and> (\<not> current_time - last_activity s > real_of_int (inactivity_timeout cfg) \<longrightarrow>
            status (fst (monitor_single_session pull e cfg current_time now s (Some bus) tr)) =
              (if fst (check_completion pull (Some busL) s) then ''completed'' else status s)
            \<and> error_count (fst (monitor_single_session pull e cfg current_time now s (Some bus) tr))
                = error_count s
            \<and> last_error (fst (monitor_single_session pull e cfg current_time now s (Some bus) tr))
                = last_error s))
   \<and> (pull bus (role s @ ''_status'') (offset_of s (role s @ ''_status'')) 5 = (Inl exnC, busC) \<longrightarrow>
        check_completion pull (Some bus) s = (False, s, Some busC))
   \<and> (\<not> current_time - last_activity s > real_of_int (inactivity_timeout cfg) \<longrightarrow>
        detect_loop pull e cfg (Some bus) s = (False, sL, Some bL) \<longrightarrow>
        pull bL (role sL @ ''_status'') (offset_of sL (role sL @ ''_status'')) 5 = (Inl exnP, busP) \<longrightarrow>
          monitor_single_session pull e cfg current_time now s (Some bus) tr = (sL, Some busP, tr)
          \<and> status sL = status s \<and> error_count sL = error_count s \<and> last_error sL = last_error s)
   \<and> (\<not> current_time - last_activity s > real_of_int (inactivity_timeout cfg) \<longrightarrow>
        pull bus (role s @ ''_messages'') (offset_of s (role s @ ''_messages'')) 5 = (Inl exnM, busM) \<longrightarrow>
        pull busM (role s @ ''_status'') (offset_of s (role s @ ''_status'')) 5 = (Inl exnS, busS) \<longrightarrow>
          monitor_single_session pull e cfg current_time now s (Some bus) tr = (s, Some busS, tr))"
proof (intro conjI impI)
  assume p: "pull bus (role s @ ''_messages'') (offset_of s (role s @ ''_messages'')) 5 = (Inl exnL, busL)"
  show d: "detect_loop pull e cfg (Some bus) s = (False, s, Some busL)"
    using p by (simp add: detect_loop_def Let_def)
  assume nt: "\<not> current_time - last_activity s > real_of_int (inactivity_timeout cfg)"
  note m = monitor_single_session_no_loop [OF nt d, of now tr]
  show "status (fst (monitor_single_session pull e cfg current_time now s (Some bus) tr)) =
          (if fst (check_completion pull (Some busL) s) then ''completed'' else status s)"
    unfolding m by simp
  show "error_count (fst (monitor_single_session pull e cfg current_time now s (Some bus) tr)) = error_count s"
    unfolding m by simp
  show "last_error (fst (monitor_single_session pull e cfg current_time now s (Some bus) tr)) = last_error s"
    unfolding m by simp
next
  assume "pull bus (role s @ ''_status'') (offset_of s (role s @ ''_status'')) 5 = (Inl exnC, busC)"
  then show "check_completion pull (Some bus) s = (False, s, Some busC)"
    by (simp add: check_completion_def Let_def)
next
  assume nt: "\<not> current_time - last_activity s > real_of_int (inactivity_timeout cfg)"
    and d: "detect_loop pull e cfg (Some bus) s = (False, sL, Some bL)"
    and p: "pull bL (role sL @ ''_status'') (offset_of sL (role sL @ ''_status'')) 5 = (Inl exnP, busP)"
  show "monitor_single_session pull e cfg current_time now s (Some bus) tr = (sL, Some busP, tr)"
  proof -
    have "check_completion pull (Some bL) sL = (False, sL, Some busP)"
      using p by (simp add: check_completion_def Let_def)
    then show ?thesis
      using monitor_single_session_no_loop [OF nt d, of now tr] by simp
  qed
  show "status sL = status s"
    using detect_loop_status [of pull e cfg "Some bus" s] d by simp
  show "error_count sL = error_count s"
    using detect_loop_errors(1) [of pull e cfg "Some bus" s] d by simp
  show "last_error sL = last_error s"
    using detect_loop_errors(2) [of pull e cfg "Some bus" s] d by simp
next
  assume nt: "\<not> current_time - last_activity s > real_of_int (inactivity_timeout cfg)"
    and p1: "pull bus (role s @ ''_messages'') (offset_of s (role s @ ''_messages'')) 5 = (Inl exnM, busM)"
    and p2: "pull busM (role s @ ''_status'') (offset_of s (role s @ ''_status'')) 5 = (Inl exnS, busS)"
  show "monitor_single_session pull e cfg current_time now s (Some bus) tr = (s, Some busS, tr)"
  proof -
    have d: "detect_loop pull e cfg (Some bus) s = (False, s, Some busM)"
      using p1 by (simp add: detect_loop_def Let_def)
    have "check_completion pull (Some busM) s = (False, s, Some busS)"
      using p2 by (simp add: check_completion_def Let_def)
    then show ?thesis
      using monitor_single_session_no_loop [OF nt d, of now tr] by simp
  qed
qed

text \<open>
  A bus that fails on the message channel alone, one that fails on the status channel
  alone, and one that fails on both: the session stays running each time.
\<close>

theorem bus_error_fail_open_witness:
  "\<not> 10 - last_activity session0 > real_of_int (inactivity_timeout config0)
   \<and> detect_loop pull_messages_down env_posix config0 (Some ()) session0 = (False, session0, Some ())
   \<and> status (fst (monitor_single_session pull_messages_down env_posix config0 10 11 session0 (Some ()) []))
       = ''running''
   \<and> check_completion pull_status_down (Some ()) session0 = (False, session0, Some ())
   \<and> status (fst (monitor_single_session pull_status_down env_posix config0 10 11 session0 (Some ()) []))
       = ''running''
   \<and> monitor_single_session pull_down env_posix config0 10 11 session0 (Some ()) [] = (session0, Some (), [])"
proof -
  have nt: "\<not> 10 - last_activity session0 > real_of_int (inactivity_timeout config0)"
    by (simp add: session0_def config0_def)
  have pm: "pull_messages_down () (role session0 @ ''_messages'')
              (offset_of session0 (role session0 @ ''_messages'')) 5 = (Inl ''bus unavailable'', ())"
    by (simp add: pull_messages_down_def session0_def)
  have cm: "\<not> fst (check_completion pull_messages_down (Some ()) session0)"
    by (simp add: check_completion_def pull_messages_down_def session0_def items_of_def Let_def)
  note t1 = bus_error_fail_open [where pull=pull_messages_down and bus="()" and s=session0
      and exnL="''bus unavailable''" and busL="()" and e=env_posix and cfg=config0
      and current_time=10 and now=11 and tr="[]"]
  from t1 pm have a: "detect_loop pull_messages_down env_posix config0 (Some ()) session0
                        = (False, session0, Some ())"
    by blast
  from t1 pm nt cm have b: "status (fst (monitor_single_session pull_messages_down env_posix config0
                                10 11 session0 (Some ()) [])) = status session0"
    by simp
  have ps: "pull_status_down () (role session0 @ ''_status'')
              (offset_of session0 (role session0 @ ''_status'')) 5 = (Inl ''bus unavailable'', ())"
    by (simp add: pull_status_down_def session0_def)
  obtain sL where sL: "sL = fst (snd (detect_loop pull_status_down env_posix config0 (Some ()) session0))"
    by simp
  have dl: "detect_loop pull_status_down env_posix config0 (Some ()) session0 = (False, sL, Some ())"
    unfolding sL
    by (simp add: detect_loop_def pull_status_down_def pull_distinct_def session0_def config0_def
        offset_of_def items_of_def recent_bodies_def body_str_def py_str_def Let_def)
  have r1: "role sL = role session0" and o1: "offset_of sL (role sL @ ''_status'') = 0"
    unfolding sL
    by (simp_all add: detect_loop_def pull_status_down_def pull_distinct_def session0_def config0_def
        offset_of_def items_of_def update_counters_offsets_def Let_def)
  have ps1: "pull_status_down () (role sL @ ''_status'') (offset_of sL (role sL @ ''_status'')) 5
               = (Inl ''bus unavailable'', ())"
    by (simp add: r1 pull_status_down_def session0_def)
  note t2 = bus_error_fail_open [where pull=pull_status_down and bus="()" and s=session0
      and exnC="''bus unavailable''" and busC="()" and sL=sL and bL="()"
      and exnP="''bus unavailable''" and busP="()" and e=env_posix and cfg=config0
      and current_time=10 and now=11 and tr="[]"]
  from t2 ps have c: "check_completion pull_status_down (Some ()) session0 = (False, session0, Some ())"
    by blast
  from t2 nt dl ps1 have d: "monitor_single_session pull_status_down env_posix config0 10 11 session0
                               (Some ()) [] = (sL, Some (), []) \<and> status sL = status session0"
    by blast
  have pd: "\<And>ch. pull_down () ch (offset_of session0 ch) 5 = (Inl ''bus unavailable'', ())"
    by (simp add: pull_down_def)
  note t3 = bus_error_fail_open [where pull=pull_down and bus="()" and s=session0
      and exnM="''bus unavailable''" and busM="()" and exnS="''bus unavailable''" and busS="()"
      and e=env_posix and cfg=config0 and current_time=10 and now=11 and tr="[]"]
  from t3 nt pd have f: "monitor_single_session pull_down env_posix config0 10 11 session0 (Some ()) []
                           = (session0, Some (), [])"
    by blast
  have st: "status session0 = ''running''" by (simp add: session0_def)
  show ?thesis using nt a b c d f st by simp
qed

section \<open>Evaluation order\<close>

lemma monitor_single_session_timeout:
  assumes "current_time - last_activity s > real_of_int (inactivity_timeout cfg)"
  shows "monitor_single_session pull e cfg current_time now s mbus tr =
           (s\<lparr>status := ''timeout''\<rparr>, mbus,
            save_session_summary e now (s\<lparr>status := ''timeout''\<rparr>) ''timeout'' tr)"
  using assms by (simp add: monitor_single_session_def handle_session_timeout_def Let_def)

text \<open>
  Claim C3. One pass over a session tests timeout first, then the loop detector, then
  the completion detector, and the first that holds decides. A session whose inactive
  time exceeds the inactivity timeout becomes \<^verbatim>\<open>timeout\<close> whatever the bus holds: the
  detectors are not run (the bus and the offsets are as before) and the one thing
  done is the call that writes the timeout summary. Otherwise a positive loop detector gives \<^verbatim>\<open>looped\<close>
  before completion is looked at, then a positive completion detector gives
  \<^verbatim>\<open>completed\<close>, and else the status stays.
\<close>

theorem evaluation_order:
  "(current_time - last_activity s > real_of_int (inactivity_timeout cfg) \<longrightarrow>
      monitor_single_session pull e cfg current_time now s mbus tr =
        (s\<lparr>status := ''timeout''\<rparr>, mbus,
         save_session_summary e now (s\<lparr>status := ''timeout''\<rparr>) ''timeout'' tr))
   \<and> status (fst (monitor_single_session pull e cfg current_time now s mbus tr)) =
     (if current_time - last_activity s > real_of_int (inactivity_timeout cfg) then ''timeout''
      else if mbus \<noteq> None \<and> fst (detect_loop pull e cfg mbus s) then ''looped''
      else if fst (check_completion pull (snd (snd (detect_loop pull e cfg mbus s)))
                     (fst (snd (detect_loop pull e cfg mbus s))))
      then ''completed''
      else status s)"
  using monitor_single_session_timeout [where cfg=cfg and current_time=current_time and s=s
      and pull=pull and e=e and now=now and mbus=mbus and tr=tr]
    monitor_single_session_status [where cfg=cfg and current_time=current_time and s=s and pull=pull
      and e=e and now=now and mbus=mbus and tr=tr]
  by blast

text \<open>
  A session idle for 301 seconds under a timeout of 300, on a bus where the loop
  condition and the completion condition both hold, times out.
\<close>

theorem evaluation_order_witness:
  "301 - last_activity session0 > real_of_int (inactivity_timeout config0)
   \<and> fst (detect_loop pull_stuck env_posix config0 (Some ()) session0)
   \<and> fst (check_completion pull_stuck (Some ()) session0)
   \<and> status (fst (monitor_single_session pull_stuck env_posix config0 301 302 session0 (Some ()) []))
       = ''timeout''"
proof -
  have t: "301 - last_activity session0 > real_of_int (inactivity_timeout config0)"
    by (simp add: session0_def config0_def)
  have l: "fst (detect_loop pull_stuck env_posix config0 (Some ()) session0)"
    by (simp add: detect_loop_def pull_stuck_def session0_def config0_def offset_of_def items_of_def
        recent_bodies_def body_str_def py_str_def Let_def)
  have c: "fst (check_completion pull_stuck (Some ()) session0)"
    by (simp add: check_completion_def pull_stuck_def session0_def offset_of_def items_of_def
        body_done_def Let_def)
  from evaluation_order [where current_time=301 and s=session0 and cfg=config0 and pull=pull_stuck
      and e=env_posix and now=302 and mbus="Some ()" and tr="[]"] t
  have "status (fst (monitor_single_session pull_stuck env_posix config0 301 302 session0 (Some ()) []))
       = ''timeout''"
    by simp
  with t l c show ?thesis by simp
qed

section \<open>Offsets\<close>

lemma update_counters_offsets_forward:
  assumes "\<forall>n. next_offset messages = Some n \<longrightarrow> offset_of s channel \<le> n"
  shows "offset_of s c \<le> offset_of (update_counters_offsets channel (offset_of s channel) messages s) c"
  using assms
  by (auto simp: offset_of_def update_counters_offsets_last_offsets split: option.splits)

lemma offset_of_cong: "last_offsets s' = last_offsets s \<Longrightarrow> offset_of s' c = offset_of s c"
  by (simp add: offset_of_def)

lemma detect_loop_forward:
  assumes "next_not_behind pull"
  shows "offset_of s c \<le> offset_of (fst (snd (detect_loop pull e cfg mbus s))) c"
proof -
  from detect_loop_session [of pull e cfg mbus s] show ?thesis
  proof
    assume "fst (snd (detect_loop pull e cfg mbus s)) = s"
    then show ?thesis by simp
  next
    assume "\<exists>bus messages bus'. mbus = Some bus
      \<and> pull bus (role s @ ''_messages'') (offset_of s (role s @ ''_messages'')) 5 = (Inr messages, bus')
      \<and> fst (snd (detect_loop pull e cfg mbus s)) =
          update_counters_offsets (role s @ ''_messages'') (offset_of s (role s @ ''_messages'')) messages s"
    then obtain bus messages bus' where
      p: "pull bus (role s @ ''_messages'') (offset_of s (role s @ ''_messages'')) 5 = (Inr messages, bus')"
      and r: "fst (snd (detect_loop pull e cfg mbus s)) =
          update_counters_offsets (role s @ ''_messages'') (offset_of s (role s @ ''_messages'')) messages s"
      by blast
    from assms p have "\<forall>n. next_offset messages = Some n \<longrightarrow> offset_of s (role s @ ''_messages'') \<le> n"
      unfolding next_not_behind_def by blast
    then show ?thesis unfolding r by (rule update_counters_offsets_forward)
  qed
qed

lemma check_completion_forward:
  assumes "next_not_behind pull"
  shows "offset_of s c \<le> offset_of (fst (snd (check_completion pull mbus s))) c"
proof -
  from check_completion_session [of pull mbus s] show ?thesis
  proof
    assume "fst (snd (check_completion pull mbus s)) = s"
    then show ?thesis by simp
  next
    assume "\<exists>bus messages bus'. mbus = Some bus
      \<and> pull bus (role s @ ''_status'') (offset_of s (role s @ ''_status'')) 5 = (Inr messages, bus')
      \<and> fst (snd (check_completion pull mbus s)) =
          update_counters_offsets (role s @ ''_status'') (offset_of s (role s @ ''_status'')) messages s"
    then obtain bus messages bus' where
      p: "pull bus (role s @ ''_status'') (offset_of s (role s @ ''_status'')) 5 = (Inr messages, bus')"
      and r: "fst (snd (check_completion pull mbus s)) =
          update_counters_offsets (role s @ ''_status'') (offset_of s (role s @ ''_status'')) messages s"
      by blast
    from assms p have "\<forall>n. next_offset messages = Some n \<longrightarrow> offset_of s (role s @ ''_status'') \<le> n"
      unfolding next_not_behind_def by blast
    then show ?thesis unfolding r by (rule update_counters_offsets_forward)
  qed
qed

lemma monitor_single_session_forward:
  assumes "next_not_behind pull"
  shows "offset_of s c \<le> offset_of (fst (monitor_single_session pull e cfg current_time now s mbus tr)) c"
proof (cases rule: monitor_single_session_cases [where current_time=current_time and s=s and cfg=cfg and pull=pull and e=e and now=now and mbus=mbus and tr=tr])
  case timeout
  then show ?thesis by (simp add: offset_of_def)
next
  case (looped s1 b1)
  have "offset_of s c \<le> offset_of s1 c"
    using detect_loop_forward [OF assms, of s c e cfg mbus] looped(3) by simp
  moreover have "offset_of (fst (handle_loop_detection e now (s1\<lparr>loop_detected := True, status := ''looped''\<rparr>) tr)) c
              = offset_of s1 c"
    by (rule offset_of_cong) simp
  ultimately show ?thesis using looped(4) by simp
next
  case (completed l s1 b1 s2 b2)
  have "offset_of s c \<le> offset_of s1 c"
    using detect_loop_forward [OF assms, of s c e cfg mbus] completed(2) by simp
  moreover have "offset_of s1 c \<le> offset_of s2 c"
    using check_completion_forward [OF assms, of s1 c b1] completed(4) by simp
  moreover have "offset_of (s2\<lparr>status := ''completed''\<rparr>) c = offset_of s2 c"
    by (rule offset_of_cong) simp
  ultimately show ?thesis using completed(5) by simp
next
  case (running l s1 b1 s2 b2)
  have "offset_of s c \<le> offset_of s1 c"
    using detect_loop_forward [OF assms, of s c e cfg mbus] running(2) by simp
  moreover have "offset_of s1 c \<le> offset_of s2 c"
    using check_completion_forward [OF assms, of s1 c b1] running(4) by simp
  ultimately show ?thesis using running(5) by simp
qed

text \<open>
  The detectors store whatever \<^verbatim>\<open>'next'\<close> the bus supplies. A session that has read
  up to offset 5 and meets a bus answering \<^verbatim>\<open>'next': 0\<close> is set back to offset 0: the
  stored offset is not non-decreasing for every bus.
\<close>

theorem offset_rewinds_counterexample:
  "offset_of session5 ''architect_messages'' = 5
   \<and> offset_of (fst (snd (detect_loop pull_rewind env_posix config0 (Some ()) session5)))
        ''architect_messages'' = 0"
  by (simp add: session5_def session0_def pull_rewind_def detect_loop_def offset_of_def
      update_counters_offsets_def items_of_def Let_def config0_def)

text \<open>
  Claim C5, amended. On a bus whose \<^verbatim>\<open>'next'\<close>, when supplied, is never smaller than the
  \<^verbatim>\<open>since\<close> of the pull, the stored offset of every channel is non-decreasing across
  an invocation of the loop detector, of the completion detector, and across a whole
  pass over the session. On any bus, an invocation whose pull returns sets the offset of
  its channel to the supplied \<^verbatim>\<open>'next'\<close> when there is one and otherwise, when items were
  returned, to \<^verbatim>\<open>since + len(items)\<close>; it leaves the other channels alone.
\<close>

theorem offsets_never_decrease:
  assumes "next_not_behind pull"
  shows "offset_of s c \<le> offset_of (fst (snd (detect_loop pull e cfg mbus s))) c
       \<and> offset_of s c \<le> offset_of (fst (snd (check_completion pull mbus s))) c
       \<and> offset_of s c \<le> offset_of (fst (monitor_single_session pull e cfg current_time now s mbus tr)) c
       \<and> (\<forall>bus messages bus'.
            pull bus (role s @ ''_messages'') (offset_of s (role s @ ''_messages'')) 5 = (Inr messages, bus') \<longrightarrow>
            last_offsets (fst (snd (detect_loop pull e cfg (Some bus) s))) =
              (case next_offset messages of
                 Some n \<Rightarrow> (last_offsets s)(role s @ ''_messages'' \<mapsto> n)
               | None \<Rightarrow>
                   if items_of messages \<noteq> []
                   then (last_offsets s)(role s @ ''_messages'' \<mapsto>
                          offset_of s (role s @ ''_messages'') + int (length (items_of messages)))
                   else last_offsets s))
       \<and> (\<forall>bus messages bus'.
            pull bus (role s @ ''_status'') (offset_of s (role s @ ''_status'')) 5 = (Inr messages, bus') \<longrightarrow>
            last_offsets (fst (snd (check_completion pull (Some bus) s))) =
              (case next_offset messages of
                 Some n \<Rightarrow> (last_offsets s)(role s @ ''_status'' \<mapsto> n)
               | None \<Rightarrow>
                   if items_of messages \<noteq> []
                   then (last_offsets s)(role s @ ''_status'' \<mapsto>
                          offset_of s (role s @ ''_status'') + int (length (items_of messages)))
                   else last_offsets s))"
proof -
  have a: "offset_of s c \<le> offset_of (fst (snd (detect_loop pull e cfg mbus s))) c"
    by (rule detect_loop_forward [OF assms])
  have b: "offset_of s c \<le> offset_of (fst (snd (check_completion pull mbus s))) c"
    by (rule check_completion_forward [OF assms])
  have m: "offset_of s c \<le> offset_of (fst (monitor_single_session pull e cfg current_time now s mbus tr)) c"
    by (rule monitor_single_session_forward [OF assms])
  have d: "\<forall>bus messages bus'.
            pull bus (role s @ ''_messages'') (offset_of s (role s @ ''_messages'')) 5 = (Inr messages, bus') \<longrightarrow>
            last_offsets (fst (snd (detect_loop pull e cfg (Some bus) s))) =
              (case next_offset messages of
                 Some n \<Rightarrow> (last_offsets s)(role s @ ''_messages'' \<mapsto> n)
               | None \<Rightarrow>
                   if items_of messages \<noteq> []
                   then (last_offsets s)(role s @ ''_messages'' \<mapsto>
                          offset_of s (role s @ ''_messages'') + int (length (items_of messages)))
                   else last_offsets s)"
    by (simp add: detect_loop_Inr update_counters_offsets_last_offsets)
  have f: "\<forall>bus messages bus'.
            pull bus (role s @ ''_status'') (offset_of s (role s @ ''_status'')) 5 = (Inr messages, bus') \<longrightarrow>
            last_offsets (fst (snd (check_completion pull (Some bus) s))) =
              (case next_offset messages of
                 Some n \<Rightarrow> (last_offsets s)(role s @ ''_status'' \<mapsto> n)
               | None \<Rightarrow>
                   if items_of messages \<noteq> []
                   then (last_offsets s)(role s @ ''_status'' \<mapsto>
                          offset_of s (role s @ ''_status'') + int (length (items_of messages)))
                   else last_offsets s)"
    by (simp add: check_completion_Inr update_counters_offsets_last_offsets)
  from a b m d f show ?thesis by blast
qed

theorem offsets_never_decrease_witness:
  "next_not_behind pull_stuck
   \<and> offset_of session5 ''architect_messages'' \<le>
       offset_of (fst (snd (detect_loop pull_stuck env_posix config0 (Some ()) session5))) ''architect_messages''
   \<and> last_offsets (fst (snd (detect_loop pull_stuck env_posix config0 (Some ()) session5))) ''architect_messages''
       = Some 8
   \<and> last_offsets (fst (snd (check_completion pull_stuck (Some ()) session5))) ''architect_status''
       = Some 1"
proof -
  have n: "next_not_behind pull_stuck"
    by (auto simp: next_not_behind_def pull_stuck_def split: if_splits)
  note t = offsets_never_decrease [OF n, where s=session5 and c="''architect_messages''" and e=env_posix
      and cfg=config0 and mbus="Some ()" and current_time=10 and now=11 and tr="[]"]
  have p1: "pull_stuck () (role session5 @ ''_messages'') (offset_of session5 (role session5 @ ''_messages'')) 5
        = (Inr \<lparr>items = Some [BusItem (Some (JStr ''retrying'')), BusItem (Some (JStr ''retrying'')),
                                BusItem (Some (JStr ''retrying''))], next_offset = None\<rparr>, ())"
    by (simp add: pull_stuck_def session5_def session0_def)
  have p2: "pull_stuck () (role session5 @ ''_status'') (offset_of session5 (role session5 @ ''_status'')) 5
        = (Inr \<lparr>items = Some [BusItem (Some (JDict [(''done'', JBool True)]))],
                 next_offset = Some 1\<rparr>, ())"
    by (simp add: pull_stuck_def session5_def session0_def offset_of_def)
  from t have m: "offset_of session5 ''architect_messages'' \<le>
       offset_of (fst (snd (detect_loop pull_stuck env_posix config0 (Some ()) session5))) ''architect_messages''"
    by blast
  from t p1 have d: "last_offsets (fst (snd (detect_loop pull_stuck env_posix config0 (Some ()) session5))) =
        (last_offsets session5)(role session5 @ ''_messages'' \<mapsto>
           offset_of session5 (role session5 @ ''_messages'') + int (length (items_of
              \<lparr>items = Some [BusItem (Some (JStr ''retrying'')), BusItem (Some (JStr ''retrying'')),
                                BusItem (Some (JStr ''retrying''))], next_offset = None\<rparr>)))"
    by (simp add: items_of_def)
  from t p2 have c: "last_offsets (fst (snd (check_completion pull_stuck (Some ()) session5))) =
        (last_offsets session5)(role session5 @ ''_status'' \<mapsto> 1)"
    by simp
  show ?thesis using n m
    by (simp add: d c) (simp add: session5_def session0_def offset_of_def items_of_def)
qed

section \<open>Session summaries\<close>

text \<open>
  What a pass over a running session emits: one call of the summary writer (the
  summary, or the log line of its failed write) when the pass ends in \<^verbatim>\<open>timeout\<close> or
  \<^verbatim>\<open>completed\<close>, and nothing when it ends in \<^verbatim>\<open>looped\<close> or leaves the session
  running.
\<close>

lemma monitor_single_session_summary:
  assumes "status s = ''running''"
  shows "snd (snd (monitor_single_session pull e cfg current_time now s mbus tr)) =
     (let s' = fst (monitor_single_session pull e cfg current_time now s mbus tr)
      in if status s' = ''timeout'' \<or> status s' = ''completed''
         then save_session_summary e now s' (status s') tr
         else tr)"
proof (cases rule: monitor_single_session_cases [where current_time=current_time and s=s and cfg=cfg and pull=pull and e=e and now=now and mbus=mbus and tr=tr])
  case timeout
  then show ?thesis by simp
next
  case (looped s1 b1)
  then show ?thesis
    by (simp add: Let_def) (simp add: handle_loop_detection_def Let_def split: sum.splits)
next
  case (completed l s1 b1 s2 b2)
  then show ?thesis by simp
next
  case (running l s1 b1 s2 b2)
  have "status s1 = status s" using detect_loop_status [of pull e cfg mbus s] running(2) by simp
  moreover have "status s2 = status s1" using check_completion_status [of pull b1 s1] running(4) by simp
  ultimately show ?thesis using running(5) assms by simp
qed

text \<open>
  \<^verbatim>\<open>stop_monitoring\<close> calls the summary writer once, with \<^verbatim>\<open>interrupted\<close>, for each
  session that was running, in table order, and not for the others.
\<close>

lemma interrupt_each_summaries:
  "snd (interrupt_each e now ss tr) =
     foldl (\<lambda>t (k, s). save_session_summary e now (s\<lparr>status := ''interrupted''\<rparr>) ''interrupted'' t) tr
       (filter (\<lambda>(k, s). status s = ''running'') ss)"
proof (induction ss arbitrary: tr)
  case Nil
  show ?case by simp
next
  case (Cons x ss)
  obtain k s where x: "x = (k, s)" by (cases x)
  show ?case using x Cons.IH by (simp add: case_prod_beta Let_def)
qed

lemmas monitor_eval =
  monitor_cycle_def stop_monitoring_def monitor_single_session_def detect_loop_def
  check_completion_def update_counters_offsets_def items_of_def offset_of_def recent_bodies_def
  body_str_def py_str_def handle_loop_detection_def inject_prompt_with_fallbacks_simple_def
  inject_via_clipboard_linux_def inject_via_clipboard_windows_def inject_via_file_fallback_def
  save_session_summary_def handle_session_timeout_def handle_session_completion_def body_done_def
  Let_def

text \<open>
  Claim C1 asks for exactly one summary at every terminal transition, the one to
  \<^verbatim>\<open>looped\<close> included. Here a running session whose message channel holds the same body
  three times goes through one monitor cycle and then \<^verbatim>\<open>stop_monitoring\<close>: the cycle
  sets it to \<^verbatim>\<open>looped\<close>, the stop passes over it because it is no longer running, and
  at the end no summary has been emitted at all, and the summary writer was never
  called.
\<close>

theorem looped_session_gets_no_summary:
  "map (status \<circ> snd)
       (sessions (fst (run_operations pull_stuck [MonitorCycle env_posix 10 11, StopMonitoring env_posix 12]
                         (automation0, [])))) = [''looped'']
   \<and> snd (run_operations pull_stuck [MonitorCycle env_posix 10 11, StopMonitoring env_posix 12]
             (automation0, [])) = []"
  by (simp add: monitor_eval config0_def session0_def env_posix_def pull_stuck_def automation0_def)

section \<open>Runs of operations\<close>

lemma sessions_rel_Nil [simp]: "sessions_rel R [] []"
  by (simp add: sessions_rel_def)

lemma sessions_rel_Cons [simp]:
  "sessions_rel R ((k, s) # ss) ((k', s') # ss') \<longleftrightarrow> k' = k \<and> R s s' \<and> sessions_rel R ss ss'"
  by (simp add: sessions_rel_def)

lemma sessions_rel_refl: "(\<And>s. R s s) \<Longrightarrow> sessions_rel R ss ss"
  by (simp add: sessions_rel_def list_all2_refl)

lemma sessions_rel_trans:
  assumes "\<And>a b c. R a b \<Longrightarrow> R b c \<Longrightarrow> R a c"
    and "sessions_rel R xs ys" and "sessions_rel R ys zs"
  shows "sessions_rel R xs zs"
  using assms(2,3) unfolding sessions_rel_def
  by (rule list_all2_trans [rotated]) (auto intro: assms(1))

lemma sessions_rel_nth:
  "sessions_rel R ss ss' \<Longrightarrow> i < length ss \<Longrightarrow>
     i < length ss' \<and> fst (ss' ! i) = fst (ss ! i) \<and> R (snd (ss ! i)) (snd (ss' ! i))"
  unfolding sessions_rel_def
  by (auto dest: list_all2_lengthD list_all2_nthD)

text \<open>
  A relation that every pass over a running session respects, and that is reflexive, is
  respected by the monitor loop position by position; likewise for the loop of
  \<^verbatim>\<open>stop_monitoring\<close> and for the write of \<^verbatim>\<open>launch_cursor_with_prompt\<close>.
\<close>

lemma monitor_each_rel:
  assumes "\<And>s b t. status s = ''running'' \<Longrightarrow>
             R s (fst (monitor_single_session pull e cfg current_time now s b t))"
    and "\<And>s. R s s"
  shows "sessions_rel R ss (fst (monitor_each pull e cfg current_time now ss bus tr))"
proof (induction ss arbitrary: bus tr)
  case Nil
  show ?case by simp
next
  case (Cons x ss)
  obtain k s where x: "x = (k, s)" by (cases x)
  show ?case
  proof (cases "status s = ''running''")
    case True
    obtain s' b' t' where m: "monitor_single_session pull e cfg current_time now s bus tr = (s', b', t')"
      by (cases "monitor_single_session pull e cfg current_time now s bus tr") auto
    have "R s s'" using assms(1) [OF True, of bus tr] m by simp
    then show ?thesis using x True m Cons.IH [of b' t']
      by (simp add: case_prod_beta)
  next
    case False
    then show ?thesis using x assms(2) Cons.IH [of bus tr]
      by (simp add: case_prod_beta)
  qed
qed

lemma interrupt_each_rel:
  assumes "\<And>s. status s = ''running'' \<Longrightarrow> R s (s\<lparr>status := ''interrupted''\<rparr>)"
    and "\<And>s. R s s"
  shows "sessions_rel R ss (fst (interrupt_each e now ss tr))"
proof (induction ss arbitrary: tr)
  case Nil
  show ?case by simp
next
  case (Cons x ss)
  obtain k s where x: "x = (k, s)" by (cases x)
  show ?case
    using x assms(1) [of s] assms(2) Cons.IH
    by (simp add: case_prod_beta Let_def)
qed

lemma update_rel:
  assumes "map_of al k = Some v" and "R v v'" and "\<And>s. R s s"
  shows "sessions_rel R al (AList.update k v' al)"
  using assms(1)
proof (induction al)
  case Nil
  then show ?case by simp
next
  case (Cons x al)
  obtain k0 s0 where x: "x = (k0, s0)" by (cases x)
  show ?case
  proof (cases "k0 = k")
    case True
    then show ?thesis using x Cons.prems assms(2) sessions_rel_refl [of R al, OF assms(3)]
      by simp
  next
    case False
    then show ?thesis using x Cons assms(3) by simp
  qed
qed

lemma apply_operation_rel:
  assumes step: "\<And>e current_time now s b t. status s = ''running'' \<Longrightarrow>
             R s (fst (monitor_single_session pull e (config a) current_time now s b t))"
    and intr: "\<And>s. status s = ''running'' \<Longrightarrow> R s (s\<lparr>status := ''interrupted''\<rparr>)"
    and same: "\<And>s s'. status s' = status s \<Longrightarrow> R s s'"
  shows "sessions_rel R (sessions a) (sessions (fst (apply_operation pull op (a, tr))))
       \<and> config (fst (apply_operation pull op (a, tr))) = config a"
proof (cases op)
  case (MonitorCycle e current_time now)
  have "sessions_rel R (sessions a)
          (fst (monitor_each pull e (config a) current_time now (sessions a) (mcp_bus a) tr))"
    by (rule monitor_each_rel) (auto intro: step same)
  then show ?thesis using MonitorCycle
    by (simp add: monitor_cycle_def case_prod_beta)
next
  case (StopMonitoring e now)
  have "sessions_rel R (sessions a) (fst (interrupt_each e now (sessions a) tr))"
    by (rule interrupt_each_rel) (auto intro: intr same)
  then show ?thesis using StopMonitoring
    by (simp add: stop_monitoring_def case_prod_beta)
next
  case (LaunchCursor e now session_id)
  have r: "sessions_rel R (sessions a) (sessions a)"
    by (rule sessions_rel_refl) (simp add: same)
  show ?thesis
  proof (cases "map_of (sessions a) session_id")
    case None
    then show ?thesis using LaunchCursor r
      by (simp add: launch_cursor_with_prompt_def)
  next
    case (Some session)
    have u: "\<And>v'. status v' = status session \<Longrightarrow>
               sessions_rel R (sessions a) (AList.update session_id v' (sessions a))"
      using Some by (rule update_rel) (auto intro: same)
    show ?thesis using LaunchCursor Some r u
      by (auto simp: launch_cursor_with_prompt_def split: sum.splits option.splits)
  qed
qed

lemma run_operations_rel:
  assumes step: "\<And>e current_time now s b t. status s = ''running'' \<Longrightarrow>
             R s (fst (monitor_single_session pull e (config a) current_time now s b t))"
    and intr: "\<And>s. status s = ''running'' \<Longrightarrow> R s (s\<lparr>status := ''interrupted''\<rparr>)"
    and same: "\<And>s s'. status s' = status s \<Longrightarrow> R s s'"
    and trans: "\<And>x y z. R x y \<Longrightarrow> R y z \<Longrightarrow> R x z"
  shows "sessions_rel R (sessions a) (sessions (fst (run_operations pull ops (a, tr))))"
  using step
proof (induction ops arbitrary: a tr)
  case Nil
  show ?case by (simp add: sessions_rel_refl same)
next
  case (Cons op ops)
  obtain a1 tr1 where ap: "apply_operation pull op (a, tr) = (a1, tr1)"
    by (cases "apply_operation pull op (a, tr)") auto
  have one: "sessions_rel R (sessions a) (sessions a1)" and cfg: "config a1 = config a"
    using apply_operation_rel [of R pull a op tr, OF Cons.prems intr same] ap by simp_all
  have rest: "sessions_rel R (sessions a1) (sessions (fst (run_operations pull ops (a1, tr1))))"
    by (rule Cons.IH) (simp add: cfg Cons.prems)
  show ?case
    using sessions_rel_trans [OF trans one rest] ap by simp
qed

text \<open>
  Claim C2. Once the status of a session is not \<^verbatim>\<open>running\<close> (so in particular once it
  is completed, failed, looped, timeout or interrupted), no run of monitor cycles (with
  the loop-breaker interventions they make), calls of \<^verbatim>\<open>stop_monitoring\<close> and launches
  changes it: the session keeps its place and key in the table and its status, and so
  never goes back to \<^verbatim>\<open>running\<close>.
\<close>

theorem terminal_status_is_final:
  assumes "i < length (sessions a)"
    and "status (snd (sessions a ! i)) \<noteq> ''running''"
  shows "i < length (sessions (fst (run_operations pull ops (a, tr))))
       \<and> fst (sessions (fst (run_operations pull ops (a, tr))) ! i) = fst (sessions a ! i)
       \<and> status (snd (sessions (fst (run_operations pull ops (a, tr))) ! i)) = status (snd (sessions a ! i))"
proof -
  let ?R = "\<lambda>s s'. status s \<noteq> ''running'' \<longrightarrow> status s' = status s"
  have "sessions_rel ?R (sessions a) (sessions (fst (run_operations pull ops (a, tr))))"
    by (rule run_operations_rel) auto
  from sessions_rel_nth [OF this assms(1)] assms(2) show ?thesis by simp
qed

theorem terminal_status_is_final_witness:
  "0 < length (sessions automation1)
   \<and> status (snd (sessions automation1 ! 0)) \<noteq> ''running''
   \<and> status (snd (sessions (fst (run_operations pull_stuck
        [MonitorCycle env_posix 10 11, LaunchCursor env_posix 12 ''reviewer_9f8e7d6c_1700000001'',
         StopMonitoring env_posix 13] (automation1, []))) ! 0)) = ''completed''"
  using terminal_status_is_final [of 0 automation1 pull_stuck
        "[MonitorCycle env_posix 10 11, LaunchCursor env_posix 12 ''reviewer_9f8e7d6c_1700000001'',
         StopMonitoring env_posix 13]" "[]"]
  by (simp add: automation1_def session_done_def session0_def)

section \<open>A threshold above the pull limit\<close>

lemma detect_loop_above_limit:
  assumes "5 < loop_detection_threshold cfg" and "honours_limit pull"
  shows "fst (detect_loop pull e cfg mbus s) = False"
proof (cases mbus)
  case None
  then show ?thesis by (simp add: detect_loop_def)
next
  case (Some bus)
  obtain r bus' where p: "pull bus (role s @ ''_messages'') (offset_of s (role s @ ''_messages'')) 5 = (r, bus')"
    by (cases "pull bus (role s @ ''_messages'') (offset_of s (role s @ ''_messages'')) 5") auto
  show ?thesis
  proof (cases r)
    case (Inl exn)
    then show ?thesis using Some p by (simp add: detect_loop_def Let_def)
  next
    case (Inr messages)
    then have "length (items_of messages) \<le> 5"
      using assms(2) p unfolding honours_limit_def by blast
    then show ?thesis using Some p Inr assms(1) by (simp add: detect_loop_def Let_def)
  qed
qed

lemma monitor_single_session_not_looped:
  assumes "5 < loop_detection_threshold cfg" and "honours_limit pull" and "status s \<noteq> ''looped''"
  shows "status (fst (monitor_single_session pull e cfg current_time now s mbus tr)) \<noteq> ''looped''"
proof (cases rule: monitor_single_session_cases [where current_time=current_time and s=s and cfg=cfg and pull=pull and e=e and now=now and mbus=mbus and tr=tr])
  case timeout
  then show ?thesis by simp
next
  case (looped s1 b1)
  then show ?thesis using detect_loop_above_limit [OF assms(1,2), of e mbus s] by simp
next
  case (completed l s1 b1 s2 b2)
  then show ?thesis by simp
next
  case (running l s1 b1 s2 b2)
  have "status s1 = status s" using detect_loop_status [of pull e cfg mbus s] running(2) by simp
  moreover have "status s2 = status s1" using check_completion_status [of pull b1 s1] running(4) by simp
  ultimately show ?thesis using running(5) assms(3) by simp
qed

text \<open>
  Claim C10. With a loop-detection threshold greater than 5 and a bus that returns at
  most five items to a pull with limit 5, the loop detector returns false for every
  session, bus state and message bodies; hence in any run of operations no session
  that is not already \<^verbatim>\<open>looped\<close> becomes \<^verbatim>\<open>looped\<close>.
\<close>

theorem threshold_above_pull_limit_never_loops:
  assumes "5 < loop_detection_threshold (config a)" and "honours_limit pull"
  shows "fst (detect_loop pull e (config a) mbus s) = False
       \<and> (\<forall>i < length (sessions a). status (snd (sessions a ! i)) \<noteq> ''looped'' \<longrightarrow>
            status (snd (sessions (fst (run_operations pull ops (a, tr))) ! i)) \<noteq> ''looped'')"
proof -
  let ?R = "\<lambda>s s'. status s \<noteq> ''looped'' \<longrightarrow> status s' \<noteq> ''looped''"
  have "sessions_rel ?R (sessions a) (sessions (fst (run_operations pull ops (a, tr))))"
    by (rule run_operations_rel) (auto simp: monitor_single_session_not_looped [OF assms])
  then have "\<forall>i < length (sessions a). status (snd (sessions a ! i)) \<noteq> ''looped'' \<longrightarrow>
            status (snd (sessions (fst (run_operations pull ops (a, tr))) ! i)) \<noteq> ''looped''"
    using sessions_rel_nth by blast
  then show ?thesis using detect_loop_above_limit [OF assms] by simp
qed

theorem threshold_above_pull_limit_never_loops_witness:
  "5 < loop_detection_threshold (config automation6)
   \<and> honours_limit pull_stuck
   \<and> fst (detect_loop pull_stuck env_posix (config automation6) (Some ()) session0) = False
   \<and> status (snd (sessions (fst (run_operations pull_stuck [MonitorCycle env_posix 10 11]
                                   (automation6, []))) ! 0)) \<noteq> ''looped''"
proof -
  have h1: "5 < loop_detection_threshold (config automation6)"
    by (simp add: automation6_def config6_def config0_def automation0_def)
  have h2: "honours_limit pull_stuck"
    by (auto simp: honours_limit_def pull_stuck_def items_of_def split: if_splits)
  note t = threshold_above_pull_limit_never_loops [OF h1 h2, where e=env_posix and mbus="Some ()"
      and s=session0 and ops="[MonitorCycle env_posix 10 11]" and tr="[]"]
  have i: "0 < length (sessions automation6)"
    and r: "status (snd (sessions automation6 ! 0)) \<noteq> ''looped''"
    by (simp_all add: automation6_def automation0_def session0_def)
  from t i r have "status (snd (sessions (fst (run_operations pull_stuck [MonitorCycle env_posix 10 11]
                                   (automation6, []))) ! 0)) \<noteq> ''looped''"
    by blast
  moreover from t have "fst (detect_loop pull_stuck env_posix (config automation6) (Some ()) session0) = False"
    by blast
  ultimately show ?thesis using h1 h2 by simp
qed

section \<open>Unknown session ids\<close>

text \<open>
  The value \<^verbatim>\<open>launch_cursor_with_prompt\<close> returns for an id that is not in the table
  is the value it returns for a known session when no Cursor command is found: the
  caller gets \<^verbatim>\<open>False\<close> in both cases and no condition that says which.
\<close>

theorem not_found_is_not_distinguished_counterexample:
  "map_of (sessions automation0) ''ghost_00000000_0'' = None
   \<and> map_of (sessions automation0) ''architect_1a2b3c4d_1700000000'' \<noteq> None
   \<and> fst (launch_cursor_with_prompt env_posix 5 ''ghost_00000000_0'' (automation0, []))
     = fst (launch_cursor_with_prompt env_posix 5 ''architect_1a2b3c4d_1700000000'' (automation0, []))"
  by (simp add: automation0_def session0_def launch_cursor_with_prompt_def env_posix_def)

text \<open>
  Claim C9, amended. The orchestrator has one operation that takes a session id,
  \<^verbatim>\<open>launch_cursor_with_prompt\<close> (there is no get or remove). For an id that is not in
  the session table it returns \<^verbatim>\<open>False\<close> to the caller and logs the error; it changes
  no session and starts nothing.
\<close>

theorem unknown_session_id_returns_false:
  assumes "map_of (sessions a) session_id = None"
  shows "launch_cursor_with_prompt e now session_id (a, tr) = (False, a, tr @ [SessionNotFound session_id])"
  using assms by (simp add: launch_cursor_with_prompt_def)

theorem unknown_session_id_returns_false_witness:
  "map_of (sessions automation0) ''ghost_00000000_0'' = None
   \<and> launch_cursor_with_prompt env_posix 5 ''ghost_00000000_0'' (automation0, []) =
       (False, automation0, [SessionNotFound ''ghost_00000000_0''])"
  using unknown_session_id_returns_false [of automation0 "''ghost_00000000_0''" env_posix 5 "[]"]
  by (simp add: automation0_def session0_def)

end
